theory Spec2Isabelle
  imports Complex_Main "HOL-Library.Log_Nat"
begin

section \<open>NetSpeed Pro: sampler, aggregator, rate buffer and persistence\<close>

text \<open>
  A shallow embedding of the measuring and bookkeeping code of \<^verbatim>\<open>netspeed_pro.py\<close>
  (class \<^verbatim>\<open>SmoothNetMonitor\<close>): \<^verbatim>\<open>measure_speeds\<close>, \<^verbatim>\<open>update_labels\<close>,
  \<^verbatim>\<open>set_adapter\<close>, \<^verbatim>\<open>load_daily_data\<close>, \<^verbatim>\<open>save_daily_data\<close>,
  \<^verbatim>\<open>load_hourly_data\<close>, \<^verbatim>\<open>save_hourly_data\<close> and \<^verbatim>\<open>clean_exit\<close>.
  Window, tray and plotting code is left out. Python exceptions are values of
  \<open>py_error\<close>; the attributes of \<^verbatim>\<open>self\<close> that these methods use are the
  fields of the record \<open>monitor\<close>; the two CSV files live in an explicit file system.
\<close>

datatype py_error = KeyError | ValueError | TypeError | OSError | OverflowError | ZeroDivisionError

subsection \<open>Python floats\<close>

text \<open>
  A Python float is an IEEE 754 binary64 number. A finite one is a rational, and every
  arithmetic operation returns the exact result rounded to the nearest number with a
  53 bit significand, ties to even. \<open>round_double\<close> is that rounding on the normal
  range; the operations below add what Python does outside the finite range. Results
  never reach the subnormal range here: quotients of integers by 1024 or 1000 and their
  products are zero or at least \<open>1 / 1024000\<close> in magnitude.
\<close>

definition ilog2 :: "rat \<Rightarrow> int" where
  \<comment> \<open>the binary exponent of a positive rational: \<open>2 powi ilog2 x \<le> x < 2 powi (ilog2 x + 1)\<close>\<close>
  "ilog2 x = (if 1 \<le> x then bitlen \<lfloor>x\<rfloor> - 1 else - bitlen (\<lceil>1 / x\<rceil> - 1))"

definition round_half_even :: "rat \<Rightarrow> int" where
  "round_half_even y =
     (let n = \<lfloor>y\<rfloor>; r = y - of_int n
      in if r < 1 / 2 then n
         else if 1 / 2 < r then n + 1
         else if even n then n else n + 1)"

definition round_double :: "rat \<Rightarrow> rat" where
  "round_double x =
     (if x = 0 then 0
      else let e = ilog2 \<bar>x\<bar> - 52
           in sgn x * of_int (round_half_even (\<bar>x\<bar> / 2 powi e)) * 2 powi e)"

definition overflows :: "rat \<Rightarrow> bool" where
  \<comment> \<open>the rounded result is beyond the largest finite double\<close>
  "overflows x = (2 ^ 1024 \<le> \<bar>round_double x\<bar>)"

definition int_truediv :: "int \<Rightarrow> int \<Rightarrow> py_error + rat" where
  \<comment> \<open>\<^verbatim>\<open>a / b\<close> on two ints: the correctly rounded quotient\<close>
  "int_truediv a b =
     (if b = 0 then Inl ZeroDivisionError
      else if overflows (of_int a / of_int b) then Inl OverflowError
      else Inr (round_double (of_int a / of_int b)))"

definition int_div_float :: "int \<Rightarrow> rat \<Rightarrow> py_error + rat" where
  \<comment> \<open>\<^verbatim>\<open>n / y\<close> with \<open>n\<close> an int and \<open>y\<close> a finite float: \<open>n\<close> is converted first\<close>
  "int_div_float n y =
     (if overflows (of_int n) then Inl OverflowError
      else if y = 0 then Inl ZeroDivisionError
      else Inr (round_double (round_double (of_int n) / y)))"

definition py_trunc :: "rat \<Rightarrow> int" where
  \<comment> \<open>\<^verbatim>\<open>int(x)\<close> on a finite float: towards zero\<close>
  "py_trunc x = (if 0 \<le> x then \<lfloor>x\<rfloor> else \<lceil>x\<rceil>)"

subsection \<open>State\<close>

record net_io =
  bytes_recv :: int
  bytes_sent :: int

record date =
  year :: nat
  month :: nat
  day :: nat

record hour_usage =
  download :: int
  upload :: int

type_synonym csv_row = "string list"
type_synonym csv_file = "csv_row list"

text \<open>
  The file system as the program sees it: the rows of each CSV file that exists, and the
  names on which \<^verbatim>\<open>open\<close> fails (permission, I/O failure).
\<close>

record filesystem =
  files :: "string \<rightharpoonup> csv_file"
  locked :: "string set"

text \<open>The attributes of \<^verbatim>\<open>self\<close> set in \<^verbatim>\<open>setup_variables\<close> that the modelled methods use.\<close>

record monitor =
  speed_queue :: "(rat \<times> rat) list"
  download_data :: "rat list"
  upload_data :: "rat list"
  update_interval :: int
  selected_adapter :: string
  running :: bool
  daily_download_bytes :: int
  daily_upload_bytes :: int
  last_data_update_day :: date
  hourly_data :: "int \<rightharpoonup> hour_usage"

definition data_usage_file :: string where
  "data_usage_file = ''data_usage.csv''"

definition hourly_data_file :: string where
  "hourly_data_file = ''hourly_usage.csv''"

definition setup_variables :: "date \<Rightarrow> monitor" where
  \<comment> \<open>the argument is \<^verbatim>\<open>datetime.date.today()\<close>\<close>
  "setup_variables today =
     \<lparr>speed_queue = [], download_data = [], upload_data = [], update_interval = 1000,
      selected_adapter = ''All'', running = True,
      daily_download_bytes = 0, daily_upload_bytes = 0, last_data_update_day = today,
      hourly_data = Map.empty\<rparr>"

definition hourly_get :: "(int \<rightharpoonup> hour_usage) \<Rightarrow> int \<Rightarrow> hour_usage" where
  \<comment> \<open>reading an entry of the \<^verbatim>\<open>defaultdict\<close>: a missing hour reads as zero\<close>
  "hourly_get m h = (case m h of None \<Rightarrow> \<lparr>download = 0, upload = 0\<rparr> | Some u \<Rightarrow> u)"

subsection \<open>Rate buffer\<close>

definition maxlen :: nat where
  "maxlen = 50"

definition deque_append :: "'a list \<Rightarrow> 'a \<Rightarrow> 'a list" where
  \<comment> \<open>\<^verbatim>\<open>deque(maxlen=50).append\<close>: a full deque drops its leftmost element\<close>
  "deque_append d x = (if length d < maxlen then d @ [x] else tl d @ [x])"

definition update_labels :: "monitor \<Rightarrow> monitor" where
  \<comment> \<open>drains the queue until \<^verbatim>\<open>get_nowait\<close> raises; each sample goes to both buffers\<close>
  "update_labels s =
     s\<lparr>download_data := foldl deque_append (download_data s) (map fst (speed_queue s)),
       upload_data := foldl deque_append (upload_data s) (map snd (speed_queue s)),
       speed_queue := []\<rparr>"

definition set_adapter :: "string \<Rightarrow> monitor \<Rightarrow> monitor" where
  "set_adapter v s = s\<lparr>selected_adapter := v, download_data := [], upload_data := []\<rparr>"

subsection \<open>Counter sampler\<close>

text \<open>What one tick observes: the per-interface table, the aggregate, and the clock.\<close>

record tick_env =
  pernic :: "string \<rightharpoonup> net_io"
  total :: net_io
  now_date :: date
  now_hour :: int

definition pernic_lookup :: "(string \<rightharpoonup> net_io) \<Rightarrow> string \<Rightarrow> py_error + net_io" where
  "pernic_lookup t k = (case t k of None \<Rightarrow> Inl KeyError | Some v \<Rightarrow> Inr v)"

definition read_stats :: "string \<Rightarrow> tick_env \<Rightarrow> py_error + net_io" where
  \<comment> \<open>lines 806-812 and 815-821: only \<^verbatim>\<open>KeyError\<close> is caught\<close>
  "read_stats adapter env =
     (if adapter = ''All'' then Inr (total env)
      else case pernic_lookup (pernic env) adapter of
             Inr v \<Rightarrow> Inr v
           | Inl e \<Rightarrow> if e = KeyError then Inr (total env) else Inl e)"

definition sample :: "net_io \<Rightarrow> net_io \<Rightarrow> py_error + rat \<times> rat" where
  \<comment> \<open>lines 822-823: \<^verbatim>\<open>down_kbps\<close> and \<^verbatim>\<open>up_kbps\<close>\<close>
  "sample new_stats old_stats =
     (case int_truediv (bytes_recv new_stats - bytes_recv old_stats) 1024 of
        Inl e \<Rightarrow> Inl e
      | Inr down_kbps \<Rightarrow>
          (case int_truediv (bytes_sent new_stats - bytes_sent old_stats) 1024 of
             Inl e \<Rightarrow> Inl e
           | Inr up_kbps \<Rightarrow> Inr (down_kbps, up_kbps)))"

definition bytes_interval :: "rat \<Rightarrow> rat \<Rightarrow> py_error + int" where
  \<comment> \<open>lines 838-839: \<^verbatim>\<open>int(kbps * 1024 * interval_seconds)\<close>. A product beyond the finite
      range is an infinity, and \<^verbatim>\<open>int\<close> of an infinity raises \<^verbatim>\<open>OverflowError\<close>
      (of the NaN that infinity times zero gives, \<^verbatim>\<open>ValueError\<close>).\<close>
  "bytes_interval kbps interval_seconds =
     (if overflows (kbps * 1024)
      then (if interval_seconds = 0 then Inl ValueError else Inl OverflowError)
      else if overflows (round_double (kbps * 1024) * interval_seconds) then Inl OverflowError
      else Inr (py_trunc (round_double (round_double (kbps * 1024) * interval_seconds))))"

subsection \<open>Text of numbers and dates\<close>

definition is_digit :: "char \<Rightarrow> bool" where
  "is_digit c = (48 \<le> (of_char c :: nat) \<and> (of_char c :: nat) \<le> 57)"

definition digit_val :: "char \<Rightarrow> nat" where
  "digit_val c = of_char c - 48"

definition digit_char :: "nat \<Rightarrow> char" where
  "digit_char d = ''0123456789'' ! d"

fun nat_str :: "nat \<Rightarrow> string" where
  "nat_str n = (if n < 10 then [digit_char n] else nat_str (n div 10) @ [digit_char (n mod 10)])"

declare nat_str.simps [simp del]

definition py_str :: "int \<Rightarrow> string" where
  \<comment> \<open>\<^verbatim>\<open>str(i)\<close> on an int\<close>
  "py_str i = (if i < 0 then CHR ''-'' # nat_str (nat (- i)) else nat_str (nat i))"

definition is_space :: "char \<Rightarrow> bool" where
  \<comment> \<open>the characters that \<^verbatim>\<open>int\<close> strips from an ASCII string: tab to carriage return
      (9 to 13) and the space; the separators FS to US (28 to 31) are not among them\<close>
  "is_space c = (let k = (of_char c :: nat) in (9 \<le> k \<and> k \<le> 13) \<or> k = 32)"

definition strip :: "string \<Rightarrow> string" where
  "strip s = rev (dropWhile is_space (rev (dropWhile is_space s)))"

fun digits_acc :: "nat \<Rightarrow> string \<Rightarrow> nat option" where
  "digits_acc acc [] = Some acc"
| "digits_acc acc (c # cs) =
     (if is_digit c then digits_acc (acc * 10 + digit_val c) cs
      else if c = CHR ''_'' \<and> cs \<noteq> [] \<and> is_digit (hd cs) then digits_acc acc cs
      else None)"

definition parse_nat :: "string \<Rightarrow> nat option" where
  \<comment> \<open>decimal digits, single underscores allowed between two digits\<close>
  "parse_nat s = (case s of [] \<Rightarrow> None | c # cs \<Rightarrow> if is_digit c then digits_acc 0 s else None)"

definition py_int :: "string \<Rightarrow> py_error + int" where
  \<comment> \<open>\<^verbatim>\<open>int(s)\<close> on an ASCII string\<close>
  "py_int s =
     (case strip s of
        [] \<Rightarrow> Inl ValueError
      | c # r \<Rightarrow>
          if c = CHR ''-'' then (case parse_nat r of None \<Rightarrow> Inl ValueError | Some n \<Rightarrow> Inr (- int n))
          else if c = CHR ''+'' then (case parse_nat r of None \<Rightarrow> Inl ValueError | Some n \<Rightarrow> Inr (int n))
          else (case parse_nat (c # r) of None \<Rightarrow> Inl ValueError | Some n \<Rightarrow> Inr (int n)))"

definition is_leap :: "nat \<Rightarrow> bool" where
  "is_leap y = (if y mod 100 = 0 then y mod 400 = 0 else y mod 4 = 0)"

definition days_in_month :: "nat \<Rightarrow> nat \<Rightarrow> nat" where
  "days_in_month y m =
     (if m = 2 then (if is_leap y then 29 else 28)
      else if m = 4 \<or> m = 6 \<or> m = 9 \<or> m = 11 then 30 else 31)"

definition valid_date :: "date \<Rightarrow> bool" where
  \<comment> \<open>what \<^verbatim>\<open>datetime.date\<close> accepts\<close>
  "valid_date d =
     (1 \<le> year d \<and> year d \<le> 9999 \<and> 1 \<le> month d \<and> month d \<le> 12 \<and>
      1 \<le> day d \<and> day d \<le> days_in_month (year d) (month d))"

definition zero_pad :: "nat \<Rightarrow> string \<Rightarrow> string" where
  "zero_pad w s = replicate (w - length s) CHR ''0'' @ s"

definition strftime :: "date \<Rightarrow> string" where
  \<comment> \<open>\<^verbatim>\<open>strftime('%Y-%m-%d')\<close>\<close>
  "strftime d =
     zero_pad 4 (nat_str (year d)) @ ''-'' @ zero_pad 2 (nat_str (month d)) @ ''-'' @
     zero_pad 2 (nat_str (day d))"

fun split_on :: "char \<Rightarrow> string \<Rightarrow> string list" where
  "split_on c [] = [[]]"
| "split_on c (x # xs) =
     (if x = c then [] # split_on c xs
      else (case split_on c xs of [] \<Rightarrow> [[x]] | w # ws \<Rightarrow> (x # w) # ws))"

definition plain_nat :: "string \<Rightarrow> nat" where
  "plain_nat s = foldl (\<lambda>a c. a * 10 + digit_val c) 0 s"

definition month_field :: "string \<Rightarrow> bool" where
  \<comment> \<open>what \<^verbatim>\<open>%m\<close> matches: \<^verbatim>\<open>1[0-2]|0[1-9]|[1-9]\<close>\<close>
  "month_field m =
     (1 \<le> length m \<and> length m \<le> 2 \<and> list_all is_digit m \<and> 1 \<le> plain_nat m \<and> plain_nat m \<le> 12)"

definition day_field :: "string \<Rightarrow> bool" where
  \<comment> \<open>what \<^verbatim>\<open>%d\<close> matches: \<^verbatim>\<open>3[01]|[12]\d|0[1-9]|[1-9]| [1-9]\<close>\<close>
  "day_field d =
     ((1 \<le> length d \<and> length d \<le> 2 \<and> list_all is_digit d \<and> 1 \<le> plain_nat d \<and> plain_nat d \<le> 31) \<or>
      (length d = 2 \<and> hd d = CHR '' '' \<and> is_digit (last d) \<and> 1 \<le> digit_val (last d)))"

definition strptime :: "string \<Rightarrow> py_error + date" where
  \<comment> \<open>\<^verbatim>\<open>datetime.strptime(s, '%Y-%m-%d').date()\<close> on an ASCII string\<close>
  "strptime s =
     (case split_on CHR ''-'' s of
        [y, m, d] \<Rightarrow>
          if length y = 4 \<and> list_all is_digit y \<and> month_field m \<and> day_field d
          then (let dt = \<lparr>year = plain_nat y, month = plain_nat m,
                           day = plain_nat (dropWhile (\<lambda>c. c = CHR '' '') d)\<rparr>
                in if valid_date dt then Inr dt else Inl ValueError)
          else Inl ValueError
      | _ \<Rightarrow> Inl ValueError)"

subsection \<open>Persistence\<close>

definition path_exists :: "filesystem \<Rightarrow> string \<Rightarrow> bool" where
  "path_exists fs name = (case files fs name of None \<Rightarrow> False | Some rows \<Rightarrow> True)"

definition open_read :: "filesystem \<Rightarrow> string \<Rightarrow> py_error + csv_file" where
  "open_read fs name =
     (if name \<in> locked fs then Inl OSError
      else case files fs name of None \<Rightarrow> Inl OSError | Some rows \<Rightarrow> Inr rows)"

definition write_rows :: "string \<Rightarrow> csv_file \<Rightarrow> filesystem \<Rightarrow> py_error + filesystem" where
  \<comment> \<open>\<^verbatim>\<open>open(name, 'w')\<close> and the rows written: the file is replaced as a whole\<close>
  "write_rows name rows fs =
     (if name \<in> locked fs then Inl OSError else Inr (fs\<lparr>files := (files fs)(name \<mapsto> rows)\<rparr>))"

definition dict_get :: "csv_row \<Rightarrow> csv_row \<Rightarrow> string \<Rightarrow> py_error + string option" where
  \<comment> \<open>\<^verbatim>\<open>row[key]\<close> on a row of \<^verbatim>\<open>csv.DictReader\<close>: a field the row is too short for is
      \<^verbatim>\<open>None\<close>, of two equal field names the later one counts\<close>
  "dict_get fieldnames row key =
     (if key \<in> set (drop (length row) fieldnames) then Inr None
      else case map_of (rev (zip fieldnames row)) key of
             None \<Rightarrow> Inl KeyError
           | Some v \<Rightarrow> Inr (Some v))"

definition row_int :: "csv_row \<Rightarrow> csv_row \<Rightarrow> string \<Rightarrow> py_error + int" where
  \<comment> \<open>\<^verbatim>\<open>int(row[key])\<close>\<close>
  "row_int fieldnames row key =
     (case dict_get fieldnames row key of
        Inl e \<Rightarrow> Inl e
      | Inr None \<Rightarrow> Inl TypeError
      | Inr (Some v) \<Rightarrow> py_int v)"

definition row_date :: "csv_row \<Rightarrow> csv_row \<Rightarrow> string \<Rightarrow> py_error + date" where
  \<comment> \<open>\<^verbatim>\<open>datetime.datetime.strptime(row[key], '%Y-%m-%d').date()\<close>\<close>
  "row_date fieldnames row key =
     (case dict_get fieldnames row key of
        Inl e \<Rightarrow> Inl e
      | Inr None \<Rightarrow> Inl TypeError
      | Inr (Some v) \<Rightarrow> strptime v)"

text \<open>
  The loop of \<^verbatim>\<open>load_daily_data\<close> over the rows after the header. The result says how
  the loop ended: \<open>Inr True\<close> is the \<^verbatim>\<open>return\<close> at a row of today, \<open>Inr False\<close> the end
  of the rows, \<open>Inl e\<close> an exception; the state holds the assignments made until then.
  \<^verbatim>\<open>DictReader\<close> skips empty rows.
\<close>

fun load_daily_rows :: "date \<Rightarrow> csv_row \<Rightarrow> csv_file \<Rightarrow> monitor \<Rightarrow> (py_error + bool) \<times> monitor" where
  "load_daily_rows today fieldnames [] s = (Inr False, s)"
| "load_daily_rows today fieldnames (row # rows) s =
     (if row = [] then load_daily_rows today fieldnames rows s
      else case row_date fieldnames row ''Date'' of
        Inl e \<Rightarrow> (Inl e, s)
      | Inr file_date \<Rightarrow>
          if file_date = today
          then (case row_int fieldnames row ''DownloadBytes'' of
                  Inl e \<Rightarrow> (Inl e, s)
                | Inr d \<Rightarrow>
                    (case row_int fieldnames row ''UploadBytes'' of
                       Inl e \<Rightarrow> (Inl e, s\<lparr>daily_download_bytes := d\<rparr>)
                     | Inr u \<Rightarrow>
                         (Inr True, s\<lparr>daily_download_bytes := d, daily_upload_bytes := u,
                                      last_data_update_day := file_date\<rparr>)))
          else load_daily_rows today fieldnames rows s)"

fun load_hourly_rows :: "csv_row \<Rightarrow> csv_file \<Rightarrow> (int \<rightharpoonup> hour_usage) \<Rightarrow> (int \<rightharpoonup> hour_usage)" where
  \<comment> \<open>the loop of \<^verbatim>\<open>load_hourly_data\<close>; an exception ends it and is swallowed\<close>
  "load_hourly_rows fieldnames [] m = m"
| "load_hourly_rows fieldnames (row # rows) m =
     (if row = [] then load_hourly_rows fieldnames rows m
      else case row_int fieldnames row ''Hour'' of
        Inl e \<Rightarrow> m
      | Inr hour \<Rightarrow>
          (case row_int fieldnames row ''DownloadBytes'' of
             Inl e \<Rightarrow> m
           | Inr download_bytes \<Rightarrow>
               (case row_int fieldnames row ''UploadBytes'' of
                  Inl e \<Rightarrow> m
                | Inr upload_bytes \<Rightarrow>
                    load_hourly_rows fieldnames rows
                      (m(hour \<mapsto> \<lparr>download = download_bytes, upload = upload_bytes\<rparr>)))))"

definition load_hourly_data :: "filesystem \<Rightarrow> monitor \<Rightarrow> monitor" where
  "load_hourly_data fs s =
     (if path_exists fs hourly_data_file
      then (case open_read fs hourly_data_file of
              Inl e \<Rightarrow> s
            | Inr [] \<Rightarrow> s
            | Inr (fieldnames # rows) \<Rightarrow>
                s\<lparr>hourly_data := load_hourly_rows fieldnames rows (hourly_data s)\<rparr>)
      else s)"

definition load_daily_data :: "date \<Rightarrow> filesystem \<Rightarrow> monitor \<Rightarrow> monitor" where
  \<comment> \<open>the first argument is \<^verbatim>\<open>datetime.date.today()\<close>\<close>
  "load_daily_data today fs s =
     (case (if path_exists fs data_usage_file
            then (case open_read fs data_usage_file of
                    Inl e \<Rightarrow> (Inl e, s)
                  | Inr [] \<Rightarrow> (Inr False, s)
                  | Inr (fieldnames # rows) \<Rightarrow> load_daily_rows today fieldnames rows s)
            else (Inr False, s)) of
        (Inr True, s') \<Rightarrow> s'
      | (r, s') \<Rightarrow>
          load_hourly_data fs
            (s'\<lparr>daily_download_bytes := 0, daily_upload_bytes := 0,
                last_data_update_day := today, hourly_data := Map.empty\<rparr>))"

definition save_daily_data :: "monitor \<Rightarrow> filesystem \<Rightarrow> filesystem" where
  \<comment> \<open>a failed write is printed and swallowed\<close>
  "save_daily_data s fs =
     (case write_rows data_usage_file
             [[''Date'', ''DownloadBytes'', ''UploadBytes''],
              [strftime (last_data_update_day s), py_str (daily_download_bytes s),
               py_str (daily_upload_bytes s)]] fs of
        Inl e \<Rightarrow> fs
      | Inr fs' \<Rightarrow> fs')"

definition hourly_row :: "(int \<rightharpoonup> hour_usage) \<Rightarrow> int \<Rightarrow> csv_row" where
  "hourly_row m hour =
     [py_str hour, py_str (download (hourly_get m hour)), py_str (upload (hourly_get m hour))]"

definition touch_hours :: "(int \<rightharpoonup> hour_usage) \<Rightarrow> (int \<rightharpoonup> hour_usage)" where
  \<comment> \<open>reading \<^verbatim>\<open>self.hourly_data[hour]\<close> for the hours 0 to 23 creates the missing entries\<close>
  "touch_hours m = (\<lambda>h. if 0 \<le> h \<and> h < 24 then Some (hourly_get m h) else m h)"

definition save_hourly_data :: "monitor \<Rightarrow> filesystem \<Rightarrow> monitor \<times> filesystem" where
  "save_hourly_data s fs =
     (case write_rows hourly_data_file
             ([''Hour'', ''DownloadBytes'', ''UploadBytes''] #
              map (hourly_row (hourly_data s)) [0 ..< 24]) fs of
        Inl e \<Rightarrow> (s, fs)
      | Inr fs' \<Rightarrow> (s\<lparr>hourly_data := touch_hours (hourly_data s)\<rparr>, fs'))"

definition clean_exit :: "monitor \<Rightarrow> filesystem \<Rightarrow> monitor \<times> filesystem" where
  "clean_exit s fs = save_hourly_data (s\<lparr>running := False\<rparr>) (save_daily_data (s\<lparr>running := False\<rparr>) fs)"

subsection \<open>Usage aggregator and the sampling loop\<close>

definition rollover :: "tick_env \<Rightarrow> monitor \<Rightarrow> filesystem \<Rightarrow> monitor \<times> filesystem" where
  \<comment> \<open>lines 830-835\<close>
  "rollover env s fs =
     (if now_date env \<noteq> last_data_update_day s
      then (s\<lparr>daily_download_bytes := 0, daily_upload_bytes := 0,
              last_data_update_day := now_date env, hourly_data := Map.empty\<rparr>,
            save_daily_data s fs)
      else (s, fs))"

definition accumulate :: "int \<Rightarrow> int \<Rightarrow> int \<Rightarrow> monitor \<Rightarrow> monitor" where
  \<comment> \<open>lines 841-845\<close>
  "accumulate hour d u s =
     s\<lparr>daily_download_bytes := daily_download_bytes s + d,
       daily_upload_bytes := daily_upload_bytes s + u,
       hourly_data := (hourly_data s)
         (hour \<mapsto> \<lparr>download = download (hourly_get (hourly_data s) hour) + d,
                    upload = upload (hourly_get (hourly_data s) hour) + u\<rparr>)\<rparr>"

definition tick_from ::
  "net_io \<Rightarrow> tick_env \<Rightarrow> net_io \<Rightarrow> monitor \<Rightarrow> filesystem \<Rightarrow> py_error + net_io \<times> monitor \<times> filesystem" where
  \<comment> \<open>lines 822-848, from the counters just read; the result starts with the new \<^verbatim>\<open>old_stats\<close>\<close>
  "tick_from new_stats env old_stats s fs =
     (case sample new_stats old_stats of
        Inl e \<Rightarrow> Inl e
      | Inr (down_kbps, up_kbps) \<Rightarrow>
          (case rollover env s fs of
             (s1, fs1) \<Rightarrow>
               (case int_div_float (update_interval s1) 1000 of
                  Inl e \<Rightarrow> Inl e
                | Inr interval_seconds \<Rightarrow>
                    (case bytes_interval down_kbps interval_seconds of
                       Inl e \<Rightarrow> Inl e
                     | Inr download_bytes_interval \<Rightarrow>
                         (case bytes_interval up_kbps interval_seconds of
                            Inl e \<Rightarrow> Inl e
                          | Inr upload_bytes_interval \<Rightarrow>
                              Inr (new_stats,
                                   (accumulate (now_hour env) download_bytes_interval
                                      upload_bytes_interval s1)
                                   \<lparr>speed_queue := speed_queue s1 @ [(down_kbps, up_kbps)]\<rparr>,
                                   fs1))))))"

definition tick ::
  "tick_env \<Rightarrow> net_io \<Rightarrow> monitor \<Rightarrow> filesystem \<Rightarrow> py_error + net_io \<times> monitor \<times> filesystem" where
  \<comment> \<open>one round of the \<^verbatim>\<open>while\<close> loop of \<^verbatim>\<open>measure_speeds\<close>\<close>
  "tick env old_stats s fs =
     (case read_stats (selected_adapter s) env of
        Inl e \<Rightarrow> Inl e
      | Inr new_stats \<Rightarrow> tick_from new_stats env old_stats s fs)"

fun measure_loop ::
  "tick_env list \<Rightarrow> net_io \<Rightarrow> monitor \<Rightarrow> filesystem \<Rightarrow> py_error + net_io \<times> monitor \<times> filesystem" where
  \<comment> \<open>the loop over the observations of successive ticks; an exception ends the thread\<close>
  "measure_loop [] old_stats s fs = Inr (old_stats, s, fs)"
| "measure_loop (env # envs) old_stats s fs =
     (if running s
      then (case tick env old_stats s fs of
              Inl e \<Rightarrow> Inl e
            | Inr (old_stats', s', fs') \<Rightarrow> measure_loop envs old_stats' s' fs')
      else Inr (old_stats, s, fs))"

text \<open>
  The rate of the specification, for comparison with \<open>sample\<close>:
  \<^verbatim>\<open>rate = (new.bytes - old.bytes) / 1024 / intervalSeconds\<close>.
\<close>

definition spec_rate :: "int \<Rightarrow> int \<Rightarrow> int \<Rightarrow> rat" where
  "spec_rate new_bytes old_bytes interval_ms =
     of_int (new_bytes - old_bytes) / 1024 / (of_int interval_ms / 1000)"

section \<open>Properties\<close>

subsection \<open>Rounding to a double\<close>

lemma ilog2_bounds:
  assumes "0 < x"
  shows "2 powi (ilog2 x) \<le> x" and "x < 2 powi (ilog2 x + 1)"
proof -
  show "2 powi (ilog2 x) \<le> x"
  proof (cases "1 \<le> x")
    case True
    then have n: "0 < \<lfloor>x\<rfloor>" by simp
    have b1: "1 \<le> bitlen \<lfloor>x\<rfloor>" using n by (simp add: bitlen_alt_def)
    have "(2::int) ^ nat (bitlen \<lfloor>x\<rfloor> - 1) \<le> \<lfloor>x\<rfloor>" using bitlen_bounds[OF n] by simp
    then have "(2::rat) ^ nat (bitlen \<lfloor>x\<rfloor> - 1) \<le> rat_of_int \<lfloor>x\<rfloor>" by simp
    moreover have "rat_of_int \<lfloor>x\<rfloor> \<le> x" by simp
    ultimately have "(2::rat) ^ nat (bitlen \<lfloor>x\<rfloor> - 1) \<le> x" by linarith
    then show ?thesis using True b1 by (simp add: ilog2_def power_int_def)
  next
    case False
    then have x1: "x < 1" by simp
    define k where "k = \<lceil>1 / x\<rceil> - 1"
    have y1: "1 < 1 / x" using assms x1 by simp
    have k0: "0 < k" unfolding k_def using y1 by linarith
    have "k < 2 ^ nat (bitlen k)" using bitlen_bounds[OF k0] by simp
    then have "\<lceil>1 / x\<rceil> \<le> 2 ^ nat (bitlen k)" unfolding k_def by linarith
    then have c: "rat_of_int \<lceil>1 / x\<rceil> \<le> rat_of_int (2 ^ nat (bitlen k))" by (simp only: of_int_le_iff)
    have "1 / x \<le> rat_of_int \<lceil>1 / x\<rceil>" by (rule le_of_int_ceiling)
    also note c
    also have "rat_of_int (2 ^ nat (bitlen k)) = 2 ^ nat (bitlen k)" by simp
    finally have "1 / x \<le> 2 ^ nat (bitlen k)" .
    then have "1 \<le> 2 ^ nat (bitlen k) * x" using assms by (simp add: field_simps)
    then have "1 / 2 ^ nat (bitlen k) \<le> x" by (simp add: field_simps)
    moreover have "2 powi (ilog2 x) = 1 / (2::rat) ^ nat (bitlen k)"
      using False bitlen_nonneg[of k] by (simp add: ilog2_def k_def power_int_def field_simps)
    ultimately show ?thesis by simp
  qed
  show "x < 2 powi (ilog2 x + 1)"
  proof (cases "1 \<le> x")
    case True
    then have n: "0 < \<lfloor>x\<rfloor>" by simp
    have b1: "1 \<le> bitlen \<lfloor>x\<rfloor>" using n by (simp add: bitlen_alt_def)
    have "\<lfloor>x\<rfloor> < 2 ^ nat (bitlen \<lfloor>x\<rfloor>)" using bitlen_bounds[OF n] by simp
    then have "\<lfloor>x\<rfloor> + 1 \<le> 2 ^ nat (bitlen \<lfloor>x\<rfloor>)" by simp
    then have "rat_of_int (\<lfloor>x\<rfloor> + 1) \<le> rat_of_int (2 ^ nat (bitlen \<lfloor>x\<rfloor>))" by (simp only: of_int_le_iff)
    then have "rat_of_int (\<lfloor>x\<rfloor> + 1) \<le> 2 ^ nat (bitlen \<lfloor>x\<rfloor>)" by (simp only: of_int_power of_int_numeral)
    moreover have "x < rat_of_int (\<lfloor>x\<rfloor> + 1)" by linarith
    ultimately have "x < 2 ^ nat (bitlen \<lfloor>x\<rfloor>)" by linarith
    then show ?thesis using True b1 by (simp add: ilog2_def power_int_def)
  next
    case False
    then have x1: "x < 1" by simp
    define k where "k = \<lceil>1 / x\<rceil> - 1"
    have y1: "1 < 1 / x" using assms x1 by simp
    have k0: "0 < k" unfolding k_def using y1 by linarith
    have b1: "1 \<le> bitlen k" using k0 by (simp add: bitlen_alt_def)
    have "2 ^ nat (bitlen k - 1) \<le> k" using bitlen_bounds[OF k0] by simp
    then have "(2::rat) ^ nat (bitlen k - 1) \<le> rat_of_int k" by simp
    moreover have "rat_of_int k < 1 / x" unfolding k_def by linarith
    ultimately have "2 ^ nat (bitlen k - 1) < 1 / x" by linarith
    then have "2 ^ nat (bitlen k - 1) * x < 1" using assms by (simp add: field_simps)
    then have "x < 1 / 2 ^ nat (bitlen k - 1)" by (simp add: field_simps)
    moreover have "2 powi (ilog2 x + 1) = 1 / (2::rat) ^ nat (bitlen k - 1)"
    proof -
      have e: "ilog2 x + 1 = - (bitlen k - 1)" using False by (simp add: ilog2_def k_def)
      have "(2::rat) powi (ilog2 x + 1) = 2 powi (- (bitlen k - 1))" by (simp only: e)
      also have "\<dots> = 1 / 2 powi (bitlen k - 1)" by (rule power_int_minus_divide)
      also have "(2::rat) powi (bitlen k - 1) = 2 ^ nat (bitlen k - 1)" using b1 by (simp add: power_int_def)
      finally show ?thesis .
    qed
    ultimately show ?thesis by simp
  qed
qed


lemma round_half_even_of_int: "round_half_even (of_int k) = k"
  by (simp add: round_half_even_def)

lemma round_double_exact:
  assumes "\<bar>m\<bar> < 2 ^ 53"
  shows "round_double (of_int m * 2 powi j) = of_int m * 2 powi j"
proof (cases "m = 0")
  case True
  then show ?thesis by (simp add: round_double_def)
next
  case False
  define x :: rat where "x = of_int m * 2 powi j"
  have ax: "\<bar>x\<bar> = of_int \<bar>m\<bar> * 2 powi j"
    by (simp add: x_def abs_mult)
  have x0: "0 < \<bar>x\<bar>" using False by (simp add: x_def)
  have xn: "x \<noteq> 0" using x0 by simp
  define e where "e = ilog2 \<bar>x\<bar> - 52"
  have "rat_of_int \<bar>m\<bar> < 2 ^ 53" using assms by simp
  then have "\<bar>x\<bar> < 2 ^ 53 * 2 powi j"
    unfolding ax by (intro mult_strict_right_mono) simp_all
  also have "\<dots> = (2::rat) powi (53 + j)"
    by (simp add: power_int_add)
  finally have up: "\<bar>x\<bar> < 2 powi (53 + j)" .
  have ej: "e \<le> j"
  proof (rule ccontr)
    assume "\<not> e \<le> j"
    then have "53 + j \<le> ilog2 \<bar>x\<bar>" by (simp add: e_def)
    then have "(2::rat) powi (53 + j) \<le> 2 powi (ilog2 \<bar>x\<bar>)"
      by (intro power_int_increasing) simp_all
    with ilog2_bounds(1)[OF x0] up show False by linarith
  qed
  have "(2::rat) powi j = 2 powi (j - e) * 2 powi e"
    by (simp flip: power_int_add)
  also have "(2::rat) powi (j - e) = 2 ^ nat (j - e)"
    using ej by (simp add: power_int_def)
  finally have pj: "(2::rat) powi j = 2 ^ nat (j - e) * 2 powi e" .
  have "\<bar>x\<bar> / 2 powi e = of_int \<bar>m\<bar> * 2 ^ nat (j - e)"
    unfolding ax pj by simp
  also have "\<dots> = rat_of_int (\<bar>m\<bar> * 2 ^ nat (j - e))" by simp
  finally have q: "\<bar>x\<bar> / 2 powi e = rat_of_int (\<bar>m\<bar> * 2 ^ nat (j - e))" .
  have "round_double x = sgn x * rat_of_int (\<bar>m\<bar> * 2 ^ nat (j - e)) * 2 powi e"
    using xn by (simp add: round_double_def Let_def e_def[symmetric] q round_half_even_of_int del: of_int_mult of_int_power)
  also have "\<dots> = sgn x * (of_int \<bar>m\<bar> * (2 ^ nat (j - e) * 2 powi e))" by simp
  also have "\<dots> = sgn x * \<bar>x\<bar>" unfolding ax pj by simp
  also have "\<dots> = x" by (simp add: sgn_mult_abs)
  finally show ?thesis unfolding x_def .
qed

lemma round_double_of_int: "\<bar>m\<bar> < 2 ^ 53 \<Longrightarrow> round_double (of_int m) = of_int m"
  using round_double_exact[of m 0] by simp

lemma round_double_div_1024: "\<bar>m\<bar> < 2 ^ 53 \<Longrightarrow> round_double (of_int m / 1024) = of_int m / 1024"
  using round_double_exact[of m "-10"] by (simp add: power_int_minus_divide)

lemma round_double_half: "\<bar>m\<bar> < 2 ^ 53 \<Longrightarrow> round_double (of_int m / 2) = of_int m / 2"
  using round_double_exact[of m "-1"] by (simp add: power_int_minus_divide)

lemma not_overflows_exact:
  assumes "\<bar>m\<bar> < 2 ^ 53" and "j \<le> 0"
  shows "\<not> overflows (of_int m * 2 powi j)"
proof -
  have "(2::rat) powi j \<le> 2 powi 0" using assms(2) by (intro power_int_increasing) simp_all
  then have j1: "(2::rat) powi j \<le> 1" by simp
  have "\<bar>rat_of_int m * 2 powi j\<bar> = rat_of_int \<bar>m\<bar> * 2 powi j" by (simp add: abs_mult)
  also have "\<dots> \<le> rat_of_int \<bar>m\<bar> * 1" using j1 by (intro mult_left_mono) simp_all
  also have "\<dots> < 2 ^ 53" using assms(1) by simp
  also have "\<dots> < (2::rat) ^ 1024" by simp
  finally show ?thesis using assms(1) by (simp add: overflows_def round_double_exact)
qed

lemma int_truediv_1024:
  assumes "\<bar>a\<bar> < 2 ^ 53"
  shows "int_truediv a 1024 = Inr (of_int a / 1024)"
proof -
  have e: "rat_of_int a / 1024 = of_int a * 2 powi (-10)" by (simp add: power_int_minus_divide)
  have "\<not> overflows (rat_of_int a / 1024)" unfolding e using assms by (intro not_overflows_exact) simp_all
  then show ?thesis using assms by (simp add: int_truediv_def round_double_div_1024)
qed

lemma int_div_float_1000: "int_div_float 1000 1000 = Inr 1"
proof -
  have a: "round_double 1000 = 1000" using round_double_of_int[of 1000] by simp
  have b: "round_double 1 = 1" using round_double_of_int[of 1] by simp
  have c: "\<not> overflows 1000" using not_overflows_exact[of 1000 0] by simp
  show ?thesis using a b c by (simp add: int_div_float_def)
qed

lemma int_div_float_500: "int_div_float 500 1000 = Inr (1 / 2)"
proof -
  have a: "round_double 500 = 500" using round_double_of_int[of 500] by simp
  have b: "round_double (1 / 2) = 1 / 2" using round_double_half[of 1] by simp
  have c: "\<not> overflows 500" using not_overflows_exact[of 500 0] by simp
  show ?thesis using a b c by (simp add: int_div_float_def)
qed

lemma bytes_interval_second:
  assumes "\<bar>a\<bar> < 2 ^ 53"
  shows "bytes_interval (of_int a / 1024) 1 = Inr a"
proof -
  have o: "\<not> overflows (rat_of_int a)" using not_overflows_exact[OF assms, of 0] by simp
  have r: "round_double (rat_of_int a) = rat_of_int a" using assms by (rule round_double_of_int)
  show ?thesis using o r by (simp add: bytes_interval_def py_trunc_def)
qed

lemma bytes_interval_half_second:
  assumes "\<bar>a\<bar> < 2 ^ 53"
  shows "bytes_interval (of_int a / 1024) (1 / 2) = Inr (py_trunc (of_int a / 2))"
proof -
  have o: "\<not> overflows (rat_of_int a)" using not_overflows_exact[OF assms, of 0] by simp
  have r: "round_double (rat_of_int a) = rat_of_int a" using assms by (rule round_double_of_int)
  have o2: "\<not> overflows (rat_of_int a / 2)" using not_overflows_exact[OF assms, of "-1"] by (simp add: power_int_minus_divide)
  have r2: "round_double (rat_of_int a / 2) = rat_of_int a / 2" using assms by (rule round_double_half)
  show ?thesis using o o2 by (simp add: bytes_interval_def r) (simp only: r2)
qed

subsection \<open>Ticks whose arithmetic is exact\<close>

lemma sample_exact:
  assumes "\<bar>bytes_recv new_stats - bytes_recv old_stats\<bar> < 2 ^ 53"
    and "\<bar>bytes_sent new_stats - bytes_sent old_stats\<bar> < 2 ^ 53"
  shows "sample new_stats old_stats =
           Inr (of_int (bytes_recv new_stats - bytes_recv old_stats) / 1024,
                of_int (bytes_sent new_stats - bytes_sent old_stats) / 1024)"
  using assms by (simp add: sample_def int_truediv_1024 del: of_int_diff)

lemma rollover_interval: "update_interval (fst (rollover env s fs)) = update_interval s"
  by (simp add: rollover_def)

lemma tick_from_second:
  assumes "\<bar>bytes_recv new_stats - bytes_recv old_stats\<bar> < 2 ^ 53"
    and "\<bar>bytes_sent new_stats - bytes_sent old_stats\<bar> < 2 ^ 53"
    and "update_interval s = 1000"
  shows "tick_from new_stats env old_stats s fs =
           Inr (new_stats,
                (accumulate (now_hour env) (bytes_recv new_stats - bytes_recv old_stats)
                   (bytes_sent new_stats - bytes_sent old_stats) (fst (rollover env s fs)))
                \<lparr>speed_queue := speed_queue (fst (rollover env s fs)) @
                   [(of_int (bytes_recv new_stats - bytes_recv old_stats) / 1024,
                     of_int (bytes_sent new_stats - bytes_sent old_stats) / 1024)]\<rparr>,
                snd (rollover env s fs))"
proof -
  have i: "update_interval (fst (rollover env s fs)) = 1000"
    using assms(3) by (simp add: rollover_interval)
  show ?thesis
    unfolding tick_from_def sample_exact[OF assms(1,2)]
    using assms(1,2) i
    by (simp add: split_beta int_div_float_1000 bytes_interval_second del: of_int_diff)
qed

lemma tick_from_half_second:
  assumes "\<bar>bytes_recv new_stats - bytes_recv old_stats\<bar> < 2 ^ 53"
    and "\<bar>bytes_sent new_stats - bytes_sent old_stats\<bar> < 2 ^ 53"
    and "update_interval s = 500"
  shows "tick_from new_stats env old_stats s fs =
           Inr (new_stats,
                (accumulate (now_hour env)
                   (py_trunc (of_int (bytes_recv new_stats - bytes_recv old_stats) / 2))
                   (py_trunc (of_int (bytes_sent new_stats - bytes_sent old_stats) / 2))
                   (fst (rollover env s fs)))
                \<lparr>speed_queue := speed_queue (fst (rollover env s fs)) @
                   [(of_int (bytes_recv new_stats - bytes_recv old_stats) / 1024,
                     of_int (bytes_sent new_stats - bytes_sent old_stats) / 1024)]\<rparr>,
                snd (rollover env s fs))"
proof -
  have i: "update_interval (fst (rollover env s fs)) = 500"
    using assms(3) by (simp add: rollover_interval)
  show ?thesis
    unfolding tick_from_def sample_exact[OF assms(1,2)]
    using assms(1,2) i
    by (simp add: split_beta int_div_float_500 bytes_interval_half_second del: of_int_diff)
qed

subsection \<open>Numbers and dates as text\<close>

lemma nat_str_digit: "n < 10 \<Longrightarrow> nat_str n = [digit_char n]"
  by (simp add: nat_str.simps)

lemma nat_str_step: "10 \<le> n \<Longrightarrow> nat_str n = nat_str (n div 10) @ [digit_char (n mod 10)]"
  by (subst nat_str.simps) simp


lemma small_cases: "d < 10 \<Longrightarrow> d = 0 \<or> d = 1 \<or> d = 2 \<or> d = 3 \<or> d = 4 \<or> d = 5 \<or> d = 6 \<or> d = 7 \<or> d = 8 \<or> d = (9::nat)"
  by arith

lemma digit_char_props:
  assumes "d < 10"
  shows "is_digit (digit_char d)" and "digit_val (digit_char d) = d"
    and "\<not> is_space (digit_char d)" and "digit_char d \<noteq> CHR ''-''"
    and "digit_char d \<noteq> CHR ''+''" and "digit_char d \<noteq> CHR '' ''"
  using small_cases[OF assms]
  by (auto simp: digit_char_def is_digit_def digit_val_def is_space_def)

lemma nat_str_digits: "list_all is_digit (nat_str n)"
proof (induction n rule: nat_str.induct)
  case (1 n)
  show ?case
  proof (cases "n < 10")
    case True
    then show ?thesis by (simp add: nat_str_digit digit_char_props)
  next
    case False
    then show ?thesis using 1 by (simp add: nat_str_step digit_char_props)
  qed
qed

lemma nat_str_nonempty: "nat_str n \<noteq> []"
  by (subst nat_str.simps) simp

lemma plain_nat_snoc: "plain_nat (xs @ [c]) = plain_nat xs * 10 + digit_val c"
  by (simp add: plain_nat_def)

lemma plain_nat_nat_str: "plain_nat (nat_str n) = n"
proof (induction n rule: nat_str.induct)
  case (1 n)
  show ?case
  proof (cases "n < 10")
    case True
    then show ?thesis by (simp add: nat_str_digit plain_nat_def digit_char_props)
  next
    case False
    then show ?thesis using 1 by (simp add: nat_str_step plain_nat_snoc digit_char_props)
  qed
qed

lemma digits_acc_digits:
  "list_all is_digit ds \<Longrightarrow> digits_acc acc ds = Some (foldl (\<lambda>a c. a * 10 + digit_val c) acc ds)"
  by (induction ds arbitrary: acc) simp_all

lemma parse_nat_nat_str: "parse_nat (nat_str n) = Some n"
proof -
  have d: "list_all is_digit (nat_str n)" by (rule nat_str_digits)
  obtain c cs where e: "nat_str n = c # cs" using nat_str_nonempty[of n] by (cases "nat_str n") auto
  have "is_digit c" using d e by simp
  moreover have "digits_acc 0 (nat_str n) = Some n"
    using digits_acc_digits[OF d, of 0] plain_nat_nat_str[of n] by (simp add: plain_nat_def)
  ultimately show ?thesis using e by (simp add: parse_nat_def)
qed

lemma digit_not_space: "is_digit c \<Longrightarrow> \<not> is_space c"
  by (auto simp: is_digit_def is_space_def Let_def)

lemma strip_id:
  assumes "s \<noteq> []" and "\<not> is_space (hd s)" and "\<not> is_space (last s)"
  shows "strip s = s"
proof -
  have a: "dropWhile is_space s = s" using assms(1,2) by (cases s) auto
  have h: "\<And>t. t \<noteq> [] \<Longrightarrow> \<not> is_space (hd t) \<Longrightarrow> dropWhile is_space t = t"
    by (case_tac t) auto
  have "rev s \<noteq> []" using assms(1) by simp
  moreover have "\<not> is_space (hd (rev s))" using assms(1,3) by (simp add: hd_rev)
  ultimately have "dropWhile is_space (rev s) = rev s" by (rule h)
  then show ?thesis by (simp add: strip_def a)
qed

lemma nat_str_last_digit: "is_digit (last (nat_str n))"
  using nat_str_digits[of n] nat_str_nonempty[of n] by (simp add: list_all_iff)

lemma nat_str_hd_digit: "is_digit (hd (nat_str n))"
  using nat_str_digits[of n] nat_str_nonempty[of n] by (cases "nat_str n") auto

lemma digit_not_sign: "is_digit c \<Longrightarrow> c \<noteq> CHR ''-'' \<and> c \<noteq> CHR ''+''"
  by (auto simp: is_digit_def)

lemma py_int_py_str: "py_int (py_str i) = Inr i"
proof (cases "i < 0")
  case True
  let ?s = "CHR ''-'' # nat_str (nat (- i))"
  have "\<not> is_space (last ?s)" using nat_str_last_digit[of "nat (- i)"] nat_str_nonempty[of "nat (- i)"]
    by (simp add: digit_not_space)
  moreover have "\<not> is_space (hd ?s)" by (simp add: is_space_def)
  ultimately have "strip ?s = ?s" by (intro strip_id) simp_all
  then show ?thesis using True by (simp add: py_int_def py_str_def parse_nat_nat_str)
next
  case False
  let ?s = "nat_str (nat i)"
  have st: "strip ?s = ?s"
    using nat_str_nonempty nat_str_hd_digit nat_str_last_digit by (intro strip_id) (simp_all add: digit_not_space)
  obtain c cs where e: "?s = c # cs" using nat_str_nonempty[of "nat i"] by (cases ?s) auto
  have c: "is_digit c" using nat_str_hd_digit[of "nat i"] e by simp
  have p: "parse_nat (c # cs) = Some (nat i)" using parse_nat_nat_str[of "nat i"] e by simp
  show ?thesis using False digit_not_sign[OF c] p st e by (simp add: py_int_def py_str_def)
qed

lemma nat_str_length: "n < 10 ^ k \<Longrightarrow> 0 < k \<Longrightarrow> length (nat_str n) \<le> k"
proof (induction n arbitrary: k rule: nat_str.induct)
  case (1 n)
  show ?case
  proof (cases "n < 10")
    case True
    then show ?thesis using 1(3) by (simp add: nat_str_digit)
  next
    case False
    obtain j where k: "k = Suc j" using 1(3) by (cases k) auto
    have j0: "0 < j" using False 1(2) k by (cases j) auto
    have "n div 10 < 10 ^ j" using 1(2) k by (simp add: less_mult_imp_div_less mult.commute)
    then have "length (nat_str (n div 10)) \<le> j" using 1(1)[OF False _ j0] by simp
    then show ?thesis using False k by (simp add: nat_str_step)
  qed
qed

lemma zero_pad_length: "length s \<le> w \<Longrightarrow> length (zero_pad w s) = w"
  by (simp add: zero_pad_def)

lemma zero_is_digit: "is_digit CHR ''0''" and zero_val: "digit_val CHR ''0'' = 0"
  by (simp_all add: is_digit_def digit_val_def)

lemma zero_pad_digits: "list_all is_digit s \<Longrightarrow> list_all is_digit (zero_pad w s)"
  by (auto simp: zero_pad_def zero_is_digit list_all_iff)

lemma foldl_zeros: "foldl (\<lambda>a c. a * 10 + digit_val c) 0 (replicate k CHR ''0'') = 0"
  by (induction k) (simp_all add: zero_val)

lemma plain_nat_zero_pad: "plain_nat (zero_pad w s) = plain_nat s"
  by (simp add: zero_pad_def plain_nat_def foldl_zeros)

lemma split_on_no_sep: "c \<notin> set xs \<Longrightarrow> split_on c xs = [xs]"
  by (induction xs) auto

lemma split_on_append: "c \<notin> set xs \<Longrightarrow> split_on c (xs @ c # ys) = xs # split_on c ys"
  by (induction xs) auto

lemma digits_no_dash: "list_all is_digit s \<Longrightarrow> CHR ''-'' \<notin> set s"
  by (auto simp: list_all_iff is_digit_def)

lemma digits_dropWhile_space: "list_all is_digit s \<Longrightarrow> dropWhile (\<lambda>c. c = CHR '' '') s = s"
  by (cases s) (auto simp: is_digit_def)

lemma strptime_strftime:
  assumes "valid_date d"
  shows "strptime (strftime d) = Inr d"
proof -
  let ?y = "zero_pad 4 (nat_str (year d))"
  let ?m = "zero_pad 2 (nat_str (month d))"
  let ?d = "zero_pad 2 (nat_str (day d))"
  have dim: "days_in_month (year d) (month d) \<le> 31" by (simp add: days_in_month_def)
  have yl: "length (nat_str (year d)) \<le> 4" using assms by (intro nat_str_length) (simp_all add: valid_date_def)
  have ml: "length (nat_str (month d)) \<le> 2" using assms by (intro nat_str_length) (simp_all add: valid_date_def)
  have dl: "length (nat_str (day d)) \<le> 2" using assms dim by (intro nat_str_length) (simp_all add: valid_date_def)
  have yd: "list_all is_digit ?y" and md: "list_all is_digit ?m" and dd: "list_all is_digit ?d"
    by (simp_all add: zero_pad_digits nat_str_digits)
  have sp: "split_on CHR ''-'' (strftime d) = [?y, ?m, ?d]"
    by (simp add: strftime_def split_on_append split_on_no_sep digits_no_dash yd md dd)
  have mf: "month_field ?m" using assms md ml
    by (simp add: month_field_def zero_pad_length plain_nat_zero_pad plain_nat_nat_str valid_date_def)
  have df: "day_field ?d" using assms dd dl dim
    by (simp add: day_field_def zero_pad_length plain_nat_zero_pad plain_nat_nat_str valid_date_def)
  have rd: "\<lparr>year = year d, month = month d, day = day d\<rparr> = d" by simp
  show ?thesis
    using assms yd mf df yl
    by (simp add: strptime_def sp rd zero_pad_length plain_nat_zero_pad plain_nat_nat_str
        digits_dropWhile_space[OF dd] Let_def)
qed

subsection \<open>Loading and saving\<close>

lemma dict_get_daily:
  "dict_get [''Date'', ''DownloadBytes'', ''UploadBytes''] [a, b, c] ''Date'' = Inr (Some a)"
  "dict_get [''Date'', ''DownloadBytes'', ''UploadBytes''] [a, b, c] ''DownloadBytes'' = Inr (Some b)"
  "dict_get [''Date'', ''DownloadBytes'', ''UploadBytes''] [a, b, c] ''UploadBytes'' = Inr (Some c)"
  by (simp_all add: dict_get_def)

lemma dict_get_hourly:
  "dict_get [''Hour'', ''DownloadBytes'', ''UploadBytes''] [a, b, c] ''Hour'' = Inr (Some a)"
  "dict_get [''Hour'', ''DownloadBytes'', ''UploadBytes''] [a, b, c] ''DownloadBytes'' = Inr (Some b)"
  "dict_get [''Hour'', ''DownloadBytes'', ''UploadBytes''] [a, b, c] ''UploadBytes'' = Inr (Some c)"
  by (simp_all add: dict_get_def)

lemma load_daily_rows_found:
  assumes "\<forall>r \<in> set pre. r = [] \<or> (\<exists>d. row_date fieldnames r ''Date'' = Inr d \<and> d \<noteq> today)"
    and "row \<noteq> []"
    and "row_date fieldnames row ''Date'' = Inr today"
    and "row_int fieldnames row ''DownloadBytes'' = Inr dl"
    and "row_int fieldnames row ''UploadBytes'' = Inr ul"
  shows "load_daily_rows today fieldnames (pre @ row # post) s =
           (Inr True, s\<lparr>daily_download_bytes := dl, daily_upload_bytes := ul,
                         last_data_update_day := today\<rparr>)"
  using assms by (induction pre) auto



lemma rollover_fields:
  "speed_queue (fst (rollover env s fs)) = speed_queue s"
  "daily_download_bytes (fst (rollover env s fs)) =
     (if now_date env \<noteq> last_data_update_day s then 0 else daily_download_bytes s)"
  "daily_upload_bytes (fst (rollover env s fs)) =
     (if now_date env \<noteq> last_data_update_day s then 0 else daily_upload_bytes s)"
  "hourly_data (fst (rollover env s fs)) =
     (if now_date env \<noteq> last_data_update_day s then Map.empty else hourly_data s)"
  by (simp_all add: rollover_def)




lemma rollover_tick:
  assumes "now_date env \<noteq> last_data_update_day s"
    and "data_usage_file \<notin> locked fs"
    and "\<bar>bytes_recv new_stats - bytes_recv old_stats\<bar> < 2 ^ 53"
    and "\<bar>bytes_sent new_stats - bytes_sent old_stats\<bar> < 2 ^ 53"
    and "update_interval s = 1000"
  shows "\<exists>s' fs'. tick_from new_stats env old_stats s fs = Inr (new_stats, s', fs') \<and>
           files fs' data_usage_file =
             Some [[''Date'', ''DownloadBytes'', ''UploadBytes''],
                   [strftime (last_data_update_day s), py_str (daily_download_bytes s),
                    py_str (daily_upload_bytes s)]] \<and>
           files fs' hourly_data_file = files fs hourly_data_file \<and>
           last_data_update_day s' = now_date env \<and>
           daily_download_bytes s' = bytes_recv new_stats - bytes_recv old_stats \<and>
           daily_upload_bytes s' = bytes_sent new_stats - bytes_sent old_stats \<and>
           hourly_data s' =
             [now_hour env \<mapsto> \<lparr>download = bytes_recv new_stats - bytes_recv old_stats,
                                  upload = bytes_sent new_stats - bytes_sent old_stats\<rparr>]"
  unfolding tick_from_second[OF assms(3,4,5)]
  using assms(1,2)
  by (simp add: rollover_def save_daily_data_def write_rows_def accumulate_def hourly_get_def
      data_usage_file_def hourly_data_file_def)

subsection \<open>Values at sample inputs\<close>

lemma str_5000: "py_str 5000 = ''5000''"
  by (simp add: py_str_def nat_str_step nat_str_digit digit_char_def)

lemma str_3000: "py_str 3000 = ''3000''"
  by (simp add: py_str_def nat_str_step nat_str_digit digit_char_def)

lemma strftime_mar14: "strftime \<lparr>year = 2025, month = 3, day = 14\<rparr> = ''2025-03-14''"
  by (simp add: strftime_def zero_pad_def nat_str_step nat_str_digit digit_char_def)

lemma strptime_mar14: "strptime ''2025-03-14'' = Inr \<lparr>year = 2025, month = 3, day = 14\<rparr>"
  by (simp add: strptime_def month_field_def day_field_def plain_nat_def is_digit_def
      digit_val_def valid_date_def days_in_month_def is_leap_def)

lemma strptime_examples:
  "strptime ''2025-03-12'' = Inr \<lparr>year = 2025, month = 3, day = 12\<rparr>"
  "strptime ''2025-03-13'' = Inr \<lparr>year = 2025, month = 3, day = 13\<rparr>"
  "strptime ''2025-02-29'' = Inl ValueError"
  by (simp_all add: strptime_def month_field_def day_field_def plain_nat_def is_digit_def
      digit_val_def valid_date_def days_in_month_def is_leap_def)

lemma py_int_rejects_separator: "py_int [CHR 0x1C, CHR ''5''] = Inl ValueError"
  by (simp add: py_int_def strip_def is_space_def parse_nat_def is_digit_def)

lemma py_int_examples:
  "py_int ''4096'' = Inr 4096" "py_int ''2048'' = Inr 2048" "py_int ''3'' = Inr 3"
  "py_int ''100'' = Inr 100" "py_int ''50'' = Inr 50"
  by (simp_all add: py_int_def strip_def is_space_def parse_nat_def is_digit_def digit_val_def)

lemma clean_exit_saves_hourly_table:
  "files (snd (clean_exit s \<lparr>files = Map.empty, locked = {}\<rparr>)) hourly_data_file =
     Some ([''Hour'', ''DownloadBytes'', ''UploadBytes''] # map (hourly_row (hourly_data s)) [0 ..< 24])"
  by (simp add: clean_exit_def save_hourly_data_def save_daily_data_def write_rows_def
      data_usage_file_def hourly_data_file_def)

subsection \<open>Rate buffer\<close>

lemma deque_append_length:"length d \<le> maxlen \<Longrightarrow> length (deque_append d x) \<le> maxlen"
  by (auto simp: deque_append_def maxlen_def)

lemma foldl_deque_append:
  "length d \<le> maxlen \<Longrightarrow>
   foldl deque_append d xs = drop (length d + length xs - maxlen) (d @ xs) \<and>
   length (foldl deque_append d xs) \<le> maxlen"
proof (induction xs arbitrary: d)
  case Nil
  then show ?case by simp
next
  case (Cons x xs)
  have l: "length (deque_append d x) \<le> maxlen"
    using Cons.prems by (rule deque_append_length)
  show ?case
  proof (cases "length d < maxlen")
    case True
    then have e: "deque_append d x = d @ [x]"
      by (simp add: deque_append_def)
    show ?thesis using Cons.IH[OF l] by (simp add: e)
  next
    case False
    then have len: "length d = maxlen"
      using Cons.prems by simp
    then have e: "deque_append d x = tl d @ [x]"
      by (simp add: deque_append_def)
    have ne: "d \<noteq> []"
      using len by (auto simp: maxlen_def)
    have l2: "length (tl d @ [x]) = maxlen"
      using len ne by (cases d) auto
    have "drop (maxlen + length (x # xs) - maxlen) (d @ x # xs) = drop (length xs) (tl d @ x # xs)"
      using ne by (cases d) auto
    then show ?thesis using Cons.IH[OF l] l2 len by (simp add: e)
  qed
qed

lemma update_labels_buffer:
  assumes "length d \<le> 50"
  shows "length (foldl deque_append d xs) \<le> 50 \<and>
         foldl deque_append d xs = drop (length d + length xs - 50) (d @ xs) \<and>
         (length xs = 51 \<longrightarrow> foldl deque_append d xs = tl xs)"
proof -
  have l: "length d \<le> maxlen"
    using assms by (simp add: maxlen_def)
  note f = foldl_deque_append[OF l, of xs]
  have eq: "foldl deque_append d xs = drop (length d + length xs - 50) (d @ xs)"
    using f by (simp add: maxlen_def)
  have "foldl deque_append d xs = tl xs" if "length xs = 51"
  proof -
    have "drop (length d + 51 - 50) (d @ xs) = drop 1 xs"
      by simp
    then show ?thesis using eq that by (simp add: drop_Suc)
  qed
  moreover have "length (foldl deque_append d xs) \<le> 50"
    using f by (simp add: maxlen_def)
  ultimately show ?thesis using eq by blast
qed

text \<open>
  C5. Neither rate buffer filled by \<^verbatim>\<open>update_labels\<close> ever holds more than 50 samples:
  a download or upload buffer within capacity stays within capacity and ends as the last
  50 elements of the old buffer followed by the drained samples, in that order, and the
  queue is left empty. When 51 samples are pushed, the first of them is gone from both
  buffers and the other 50, in the order pushed, are the buffers.
\<close>

theorem rate_buffer_fifo:
  assumes "length (download_data s) \<le> 50" and "length (upload_data s) \<le> 50"
  shows "length (download_data (update_labels s)) \<le> 50 \<and>
         length (upload_data (update_labels s)) \<le> 50 \<and>
         download_data (update_labels s) =
           drop (length (download_data s) + length (speed_queue s) - 50)
                (download_data s @ map fst (speed_queue s)) \<and>
         upload_data (update_labels s) =
           drop (length (upload_data s) + length (speed_queue s) - 50)
                (upload_data s @ map snd (speed_queue s)) \<and>
         speed_queue (update_labels s) = [] \<and>
         (length (speed_queue s) = 51 \<longrightarrow>
            download_data (update_labels s) = tl (map fst (speed_queue s)) \<and>
            upload_data (update_labels s) = tl (map snd (speed_queue s)))"
proof -
  note a = update_labels_buffer[OF assms(1), of "map fst (speed_queue s)", unfolded length_map]
  note b = update_labels_buffer[OF assms(2), of "map snd (speed_queue s)", unfolded length_map]
  have d: "download_data (update_labels s) =
             foldl deque_append (download_data s) (map fst (speed_queue s))"
    and u: "upload_data (update_labels s) =
             foldl deque_append (upload_data s) (map snd (speed_queue s))"
    and q: "speed_queue (update_labels s) = []"
    by (simp_all add: update_labels_def)
  show ?thesis
    unfolding d u q using a b by blast
qed

theorem rate_buffer_fifo_witness:
  "length (download_data ((setup_variables \<lparr>year = 2025, month = 3, day = 14\<rparr>)
      \<lparr>speed_queue := map (\<lambda>n. (rat_of_nat n, 2)) [0 ..< 51]\<rparr>)) \<le> 50 \<and>
   length (upload_data ((setup_variables \<lparr>year = 2025, month = 3, day = 14\<rparr>)
      \<lparr>speed_queue := map (\<lambda>n. (rat_of_nat n, 2)) [0 ..< 51]\<rparr>)) \<le> 50 \<and>
   length (speed_queue ((setup_variables \<lparr>year = 2025, month = 3, day = 14\<rparr>)
      \<lparr>speed_queue := map (\<lambda>n. (rat_of_nat n, 2)) [0 ..< 51]\<rparr>)) = 51 \<and>
   download_data (update_labels ((setup_variables \<lparr>year = 2025, month = 3, day = 14\<rparr>)
      \<lparr>speed_queue := map (\<lambda>n. (rat_of_nat n, 2)) [0 ..< 51]\<rparr>)) =
     map rat_of_nat [1 ..< 51] \<and>
   upload_data (update_labels ((setup_variables \<lparr>year = 2025, month = 3, day = 14\<rparr>)
      \<lparr>speed_queue := map (\<lambda>n. (rat_of_nat n, 2)) [0 ..< 51]\<rparr>)) =
     map (\<lambda>n. 2) [1 ..< 51]"
proof -
  have u: "[0 ..< 51] = 0 # [1 ..< 51]" by (simp add: upt_rec)
  show ?thesis
    using rate_buffer_fifo[of "(setup_variables \<lparr>year = 2025, month = 3, day = 14\<rparr>)
      \<lparr>speed_queue := map (\<lambda>n. (rat_of_nat n, 2)) [0 ..< 51]\<rparr>"]
    by (simp add: setup_variables_def u comp_def del: upt_Suc)
qed

text \<open>
  C9. \<^verbatim>\<open>set_adapter\<close> stores the new selection and leaves both rate buffers empty.
\<close>

theorem set_adapter_clears_buffers:
  "download_data (set_adapter v s) = [] \<and> upload_data (set_adapter v s) = [] \<and>
   selected_adapter (set_adapter v s) = v"
  by (simp add: set_adapter_def)

text \<open>
  C6. When the selected adapter is not a key of the per-interface table, the read of the
  counters raises nothing and gives the aggregate of all adapters, and the tick goes on
  from the aggregate.
\<close>

theorem missing_adapter_reads_aggregate:
  assumes "pernic env (selected_adapter s) = None"
  shows "read_stats (selected_adapter s) env = Inr (total env) \<and>
         tick env old_stats s fs = tick_from (total env) env old_stats s fs"
  using assms by (simp add: read_stats_def pernic_lookup_def tick_def)

theorem missing_adapter_reads_aggregate_witness:
  "pernic \<lparr>pernic = [''eth0'' \<mapsto> \<lparr>bytes_recv = 7, bytes_sent = 9\<rparr>],
           total = \<lparr>bytes_recv = 100, bytes_sent = 200\<rparr>,
           now_date = \<lparr>year = 2025, month = 3, day = 14\<rparr>, now_hour = 10\<rparr>
      (selected_adapter (set_adapter ''wlan0'' (setup_variables \<lparr>year = 2025, month = 3, day = 14\<rparr>))) = None \<and>
   read_stats (selected_adapter (set_adapter ''wlan0'' (setup_variables \<lparr>year = 2025, month = 3, day = 14\<rparr>)))
     \<lparr>pernic = [''eth0'' \<mapsto> \<lparr>bytes_recv = 7, bytes_sent = 9\<rparr>],
      total = \<lparr>bytes_recv = 100, bytes_sent = 200\<rparr>,
      now_date = \<lparr>year = 2025, month = 3, day = 14\<rparr>, now_hour = 10\<rparr> =
     Inr \<lparr>bytes_recv = 100, bytes_sent = 200\<rparr>"
  using missing_adapter_reads_aggregate[of
      "\<lparr>pernic = [''eth0'' \<mapsto> \<lparr>bytes_recv = 7, bytes_sent = 9\<rparr>],
        total = \<lparr>bytes_recv = 100, bytes_sent = 200\<rparr>,
        now_date = \<lparr>year = 2025, month = 3, day = 14\<rparr>, now_hour = 10\<rparr>"
      "set_adapter ''wlan0'' (setup_variables \<lparr>year = 2025, month = 3, day = 14\<rparr>)"]
  by (simp add: set_adapter_def)

subsection \<open>Persistence\<close>

text \<open>
  C10 fails as stated. The daily usage file holds a row dated today, but after a row whose
  date does not parse (2025-02-29); an hourly usage file exists. The loader raises at the
  first row, sets the totals to zero and reads the hourly usage file: hour 3 of the hourly
  table holds the bytes of the file.
\<close>

theorem unparsable_row_before_today:
  "daily_download_bytes (load_daily_data \<lparr>year = 2025, month = 3, day = 14\<rparr>
      \<lparr>files = [data_usage_file \<mapsto> [[''Date'', ''DownloadBytes'', ''UploadBytes''],
                                      [''2025-02-29'', ''10'', ''20''],
                                      [''2025-03-14'', ''4096'', ''2048'']],
                 hourly_data_file \<mapsto> [[''Hour'', ''DownloadBytes'', ''UploadBytes''],
                                       [''3'', ''100'', ''50'']]],
        locked = {}\<rparr> (setup_variables \<lparr>year = 2025, month = 3, day = 14\<rparr>)) = 0 \<and>
   hourly_get (hourly_data (load_daily_data \<lparr>year = 2025, month = 3, day = 14\<rparr>
      \<lparr>files = [data_usage_file \<mapsto> [[''Date'', ''DownloadBytes'', ''UploadBytes''],
                                      [''2025-02-29'', ''10'', ''20''],
                                      [''2025-03-14'', ''4096'', ''2048'']],
                 hourly_data_file \<mapsto> [[''Hour'', ''DownloadBytes'', ''UploadBytes''],
                                       [''3'', ''100'', ''50'']]],
        locked = {}\<rparr> (setup_variables \<lparr>year = 2025, month = 3, day = 14\<rparr>))) 3 =
     \<lparr>download = 100, upload = 50\<rparr>"
  by (simp add: load_daily_data_def load_hourly_data_def path_exists_def open_read_def
      data_usage_file_def hourly_data_file_def row_date_def row_int_def dict_get_daily
      dict_get_hourly strptime_examples py_int_examples hourly_get_def setup_variables_def)

text \<open>
  C10, as amended. When the daily usage file can be read and holds a row of today whose
  two totals parse, after rows that are empty or of other days only, the loader takes the
  totals from that row and returns: the hourly table is left as it was, empty after
  \<^verbatim>\<open>setup_variables\<close>, whatever the hourly usage file holds.
\<close>

theorem same_day_restart_skips_hourly_file:
  assumes "files fs data_usage_file = Some (fieldnames # pre @ row # post)"
    and "data_usage_file \<notin> locked fs"
    and "\<forall>r \<in> set pre. r = [] \<or> (\<exists>d. row_date fieldnames r ''Date'' = Inr d \<and> d \<noteq> today)"
    and "row \<noteq> []"
    and "row_date fieldnames row ''Date'' = Inr today"
    and "row_int fieldnames row ''DownloadBytes'' = Inr dl"
    and "row_int fieldnames row ''UploadBytes'' = Inr ul"
  shows "load_daily_data today fs s =
           s\<lparr>daily_download_bytes := dl, daily_upload_bytes := ul, last_data_update_day := today\<rparr> \<and>
         hourly_data (load_daily_data today fs s) = hourly_data s \<and>
         hourly_data (load_daily_data today fs (setup_variables today)) = Map.empty"
proof -
  have "load_daily_data today fs t =
          t\<lparr>daily_download_bytes := dl, daily_upload_bytes := ul, last_data_update_day := today\<rparr>" for t
    using assms(1,2) load_daily_rows_found[OF assms(3-7), of post t]
    by (simp add: load_daily_data_def path_exists_def open_read_def)
  then show ?thesis by (simp add: setup_variables_def)
qed

theorem same_day_restart_skips_hourly_file_witness:
  "files \<lparr>files = [data_usage_file \<mapsto> [[''Date'', ''DownloadBytes'', ''UploadBytes''],
                                        [''2025-03-14'', ''4096'', ''2048'']],
                    hourly_data_file \<mapsto> [[''Hour'', ''DownloadBytes'', ''UploadBytes''],
                                         [''3'', ''100'', ''50'']]],
           locked = {}\<rparr> hourly_data_file \<noteq> None \<and>
   daily_download_bytes (load_daily_data \<lparr>year = 2025, month = 3, day = 14\<rparr>
      \<lparr>files = [data_usage_file \<mapsto> [[''Date'', ''DownloadBytes'', ''UploadBytes''],
                                      [''2025-03-14'', ''4096'', ''2048'']],
                 hourly_data_file \<mapsto> [[''Hour'', ''DownloadBytes'', ''UploadBytes''],
                                       [''3'', ''100'', ''50'']]],
        locked = {}\<rparr> (setup_variables \<lparr>year = 2025, month = 3, day = 14\<rparr>)) = 4096 \<and>
   hourly_data (load_daily_data \<lparr>year = 2025, month = 3, day = 14\<rparr>
      \<lparr>files = [data_usage_file \<mapsto> [[''Date'', ''DownloadBytes'', ''UploadBytes''],
                                      [''2025-03-14'', ''4096'', ''2048'']],
                 hourly_data_file \<mapsto> [[''Hour'', ''DownloadBytes'', ''UploadBytes''],
                                       [''3'', ''100'', ''50'']]],
        locked = {}\<rparr> (setup_variables \<lparr>year = 2025, month = 3, day = 14\<rparr>)) = Map.empty"
proof -
  let ?fn = "[''Date'', ''DownloadBytes'', ''UploadBytes'']"
  let ?row = "[''2025-03-14'', ''4096'', ''2048'']"
  let ?fs = "\<lparr>files = [data_usage_file \<mapsto> [?fn, ?row],
                 hourly_data_file \<mapsto> [[''Hour'', ''DownloadBytes'', ''UploadBytes''],
                                       [''3'', ''100'', ''50'']]],
        locked = {}\<rparr>"
  let ?d = "\<lparr>year = 2025, month = 3, day = 14\<rparr>"
  have ne: "data_usage_file \<noteq> hourly_data_file"
    by (simp add: data_usage_file_def hourly_data_file_def)
  have f: "files ?fs data_usage_file = Some (?fn # [] @ ?row # [])"
    using ne by simp
  have d: "row_date ?fn ?row ''Date'' = Inr ?d"
    by (simp add: row_date_def dict_get_daily strptime_mar14)
  have a: "row_int ?fn ?row ''DownloadBytes'' = Inr 4096"
    and b: "row_int ?fn ?row ''UploadBytes'' = Inr 2048"
    by (simp_all add: row_int_def dict_get_daily py_int_examples)
  show ?thesis
    using same_day_restart_skips_hourly_file[OF f _ _ _ d a b, of "setup_variables ?d"]
    by (simp add: setup_variables_def)
qed

text \<open>
  C8. Saving the record of today and loading the daily data of today gives the totals
  that were saved, whatever the loading state held before.
\<close>

theorem save_load_roundtrip:
  assumes "data_usage_file \<notin> locked fs"
    and "last_data_update_day s = today"
    and "valid_date today"
  shows "daily_download_bytes (load_daily_data today (save_daily_data s fs) s0) = daily_download_bytes s \<and>
         daily_upload_bytes (load_daily_data today (save_daily_data s fs) s0) = daily_upload_bytes s \<and>
         last_data_update_day (load_daily_data today (save_daily_data s fs) s0) = today"
proof -
  let ?fn = "[''Date'', ''DownloadBytes'', ''UploadBytes'']"
  let ?row = "[strftime (last_data_update_day s), py_str (daily_download_bytes s),
               py_str (daily_upload_bytes s)]"
  have f: "files (save_daily_data s fs) data_usage_file = Some (?fn # [] @ ?row # [])"
    and l: "data_usage_file \<notin> locked (save_daily_data s fs)"
    using assms(1) by (simp_all add: save_daily_data_def write_rows_def)
  have d: "row_date ?fn ?row ''Date'' = Inr today"
    using assms(2,3) by (simp add: row_date_def dict_get_daily strptime_strftime)
  have a: "row_int ?fn ?row ''DownloadBytes'' = Inr (daily_download_bytes s)"
    and b: "row_int ?fn ?row ''UploadBytes'' = Inr (daily_upload_bytes s)"
    by (simp_all add: row_int_def dict_get_daily py_int_py_str)
  have "load_daily_rows today ?fn ([] @ ?row # []) s0 =
          (Inr True, s0\<lparr>daily_download_bytes := daily_download_bytes s,
                         daily_upload_bytes := daily_upload_bytes s, last_data_update_day := today\<rparr>)"
    by (rule load_daily_rows_found) (simp_all add: d a b)
  then show ?thesis using f l
    by (simp add: load_daily_data_def path_exists_def open_read_def)
qed

theorem save_load_roundtrip_witness:
  "valid_date \<lparr>year = 2025, month = 3, day = 14\<rparr> \<and>
   daily_download_bytes
     (load_daily_data \<lparr>year = 2025, month = 3, day = 14\<rparr>
        (save_daily_data ((setup_variables \<lparr>year = 2025, month = 3, day = 14\<rparr>)
             \<lparr>daily_download_bytes := 4096, daily_upload_bytes := 2048\<rparr>)
           \<lparr>files = Map.empty, locked = {}\<rparr>)
        (setup_variables \<lparr>year = 2025, month = 3, day = 14\<rparr>)) = 4096 \<and>
   daily_upload_bytes
     (load_daily_data \<lparr>year = 2025, month = 3, day = 14\<rparr>
        (save_daily_data ((setup_variables \<lparr>year = 2025, month = 3, day = 14\<rparr>)
             \<lparr>daily_download_bytes := 4096, daily_upload_bytes := 2048\<rparr>)
           \<lparr>files = Map.empty, locked = {}\<rparr>)
        (setup_variables \<lparr>year = 2025, month = 3, day = 14\<rparr>)) = 2048"
proof -
  have v: "valid_date \<lparr>year = 2025, month = 3, day = 14\<rparr>"
    by (simp add: valid_date_def days_in_month_def)
  show ?thesis
    using save_load_roundtrip[of "\<lparr>files = Map.empty, locked = {}\<rparr>"
        "(setup_variables \<lparr>year = 2025, month = 3, day = 14\<rparr>)
             \<lparr>daily_download_bytes := 4096, daily_upload_bytes := 2048\<rparr>"
        "\<lparr>year = 2025, month = 3, day = 14\<rparr>"
        "setup_variables \<lparr>year = 2025, month = 3, day = 14\<rparr>"] v
    by (simp add: setup_variables_def)
qed




subsection \<open>Day rollover\<close>

text \<open>
  C1, at a rollover. The day before ends with 5000 bytes down and 3000 up, all in hour 23,
  and no file on disk; the next tick comes on the following day with 2048 and 1024 new
  bytes. The tick writes the totals of the day before to the daily usage file once, sets
  the totals to zero and clears the hourly table before it adds the new bytes, but it
  writes no hourly usage file: the hourly table of the day before is cleared unsaved.
  \<^verbatim>\<open>clean_exit\<close> saves both files (\<open>clean_exit_saves_hourly_table\<close>).
\<close>

theorem rollover_drops_hourly_table:
  "(case tick \<lparr>pernic = Map.empty, total = \<lparr>bytes_recv = 2048, bytes_sent = 1024\<rparr>,
                now_date = \<lparr>year = 2025, month = 3, day = 15\<rparr>, now_hour = 0\<rparr>
              \<lparr>bytes_recv = 0, bytes_sent = 0\<rparr>
              ((setup_variables \<lparr>year = 2025, month = 3, day = 14\<rparr>)
                 \<lparr>daily_download_bytes := 5000, daily_upload_bytes := 3000,
                  hourly_data := [23 \<mapsto> \<lparr>download = 5000, upload = 3000\<rparr>]\<rparr>)
              \<lparr>files = Map.empty, locked = {}\<rparr> of
      Inl e \<Rightarrow> False
    | Inr (old_stats, s', fs') \<Rightarrow>
        files fs' ''data_usage.csv'' =
          Some [[''Date'', ''DownloadBytes'', ''UploadBytes''], [''2025-03-14'', ''5000'', ''3000'']] \<and>
        files fs' ''hourly_usage.csv'' = None \<and>
        hourly_data s' = [0 \<mapsto> \<lparr>download = 2048, upload = 1024\<rparr>] \<and>
        hourly_get (hourly_data s') 23 = \<lparr>download = 0, upload = 0\<rparr> \<and>
        daily_download_bytes s' = 2048 \<and> daily_upload_bytes s' = 1024)"
proof -
  let ?env = "\<lparr>pernic = Map.empty, total = \<lparr>bytes_recv = 2048, bytes_sent = 1024\<rparr>,
                now_date = \<lparr>year = 2025, month = 3, day = 15\<rparr>, now_hour = 0\<rparr>"
  let ?s = "(setup_variables \<lparr>year = 2025, month = 3, day = 14\<rparr>)
                 \<lparr>daily_download_bytes := 5000, daily_upload_bytes := 3000,
                  hourly_data := [23 \<mapsto> \<lparr>download = 5000, upload = 3000\<rparr>]\<rparr>"
  let ?fs = "\<lparr>files = Map.empty, locked = {}\<rparr>"
  have t: "tick ?env \<lparr>bytes_recv = 0, bytes_sent = 0\<rparr> ?s ?fs =
           tick_from \<lparr>bytes_recv = 2048, bytes_sent = 1024\<rparr> ?env \<lparr>bytes_recv = 0, bytes_sent = 0\<rparr> ?s ?fs"
    by (simp add: tick_def read_stats_def setup_variables_def)
  show ?thesis
    unfolding t
    using rollover_tick[of ?env ?s ?fs "\<lparr>bytes_recv = 2048, bytes_sent = 1024\<rparr>" "\<lparr>bytes_recv = 0, bytes_sent = 0\<rparr>"]
    by (auto simp: setup_variables_def str_5000 str_3000 strftime_mar14 data_usage_file_def
        hourly_data_file_def hourly_get_def)
qed

subsection \<open>Sampler\<close>

text \<open>
  C2 fails as stated. With the counter at 1024 bytes before and 0 bytes after (a reset),
  at the default interval of 1000 ms, the tick queues the rate \<open>-1\<close> KB/s and adds
  \<open>-1024\<close> bytes to the daily total and to the bucket of the hour: nothing is clamped.
\<close>

theorem negative_delta_counterexample:
  "(case tick \<lparr>pernic = Map.empty, total = \<lparr>bytes_recv = 0, bytes_sent = 0\<rparr>,
                now_date = \<lparr>year = 2025, month = 3, day = 14\<rparr>, now_hour = 10\<rparr>
              \<lparr>bytes_recv = 1024, bytes_sent = 0\<rparr>
              (setup_variables \<lparr>year = 2025, month = 3, day = 14\<rparr>)
              \<lparr>files = Map.empty, locked = {}\<rparr> of
      Inl e \<Rightarrow> False
    | Inr (old_stats, s', fs') \<Rightarrow>
        speed_queue s' = [(- 1, 0)] \<and> daily_download_bytes s' = - 1024 \<and>
        download (hourly_get (hourly_data s') 10) = - 1024)"
proof -
  let ?env = "\<lparr>pernic = Map.empty, total = \<lparr>bytes_recv = 0, bytes_sent = 0\<rparr>,
                now_date = \<lparr>year = 2025, month = 3, day = 14\<rparr>, now_hour = 10\<rparr>"
  let ?s = "setup_variables \<lparr>year = 2025, month = 3, day = 14\<rparr>"
  let ?fs = "\<lparr>files = Map.empty, locked = {}\<rparr>"
  let ?new = "\<lparr>bytes_recv = 0, bytes_sent = 0\<rparr>"
  let ?old = "\<lparr>bytes_recv = 1024, bytes_sent = 0\<rparr>"
  have t: "tick ?env ?old ?s ?fs = tick_from ?new ?env ?old ?s ?fs"
    by (simp add: tick_def read_stats_def setup_variables_def)
  show ?thesis
    unfolding t
    using tick_from_second[of ?new ?old ?s ?env ?fs]
    by (simp add: setup_variables_def rollover_def accumulate_def hourly_get_def)
qed

text \<open>
  C2, as amended. At the interval of 1000 ms, with byte differences below \<open>2 ^ 53\<close> in
  magnitude (where the double arithmetic is exact), neither delta is clamped: the queued
  sample is the rate of the specification, \<open>(new - old) / 1024 / intervalSeconds\<close>, for
  both directions, and the differences \<open>new - old\<close> themselves are added to the daily
  totals and to the bucket of the hour. When a new byte count is below the old one, that
  rate is negative and that daily total goes down.
\<close>

theorem negative_delta_not_clamped:
  assumes "read_stats (selected_adapter s) env = Inr new_stats"
    and "update_interval s = 1000"
    and "\<bar>bytes_recv new_stats - bytes_recv old_stats\<bar> < 2 ^ 53"
    and "\<bar>bytes_sent new_stats - bytes_sent old_stats\<bar> < 2 ^ 53"
  shows "\<exists>s' fs'. tick env old_stats s fs = Inr (new_stats, s', fs') \<and>
           speed_queue s' = speed_queue s @
             [(spec_rate (bytes_recv new_stats) (bytes_recv old_stats) (update_interval s),
               spec_rate (bytes_sent new_stats) (bytes_sent old_stats) (update_interval s))] \<and>
           daily_download_bytes s' =
             (if now_date env \<noteq> last_data_update_day s then 0 else daily_download_bytes s) +
             (bytes_recv new_stats - bytes_recv old_stats) \<and>
           daily_upload_bytes s' =
             (if now_date env \<noteq> last_data_update_day s then 0 else daily_upload_bytes s) +
             (bytes_sent new_stats - bytes_sent old_stats) \<and>
           hourly_get (hourly_data s') (now_hour env) =
             \<lparr>download =
                download (hourly_get (if now_date env \<noteq> last_data_update_day s then Map.empty
                                      else hourly_data s) (now_hour env)) +
                (bytes_recv new_stats - bytes_recv old_stats),
              upload =
                upload (hourly_get (if now_date env \<noteq> last_data_update_day s then Map.empty
                                    else hourly_data s) (now_hour env)) +
                (bytes_sent new_stats - bytes_sent old_stats)\<rparr> \<and>
           (bytes_recv new_stats < bytes_recv old_stats \<longrightarrow>
              fst (last (speed_queue s')) < 0 \<and>
              daily_download_bytes s' <
                (if now_date env \<noteq> last_data_update_day s then 0 else daily_download_bytes s)) \<and>
           (bytes_sent new_stats < bytes_sent old_stats \<longrightarrow>
              snd (last (speed_queue s')) < 0 \<and>
              daily_upload_bytes s' <
                (if now_date env \<noteq> last_data_update_day s then 0 else daily_upload_bytes s))"
proof -
  have t: "tick env old_stats s fs = tick_from new_stats env old_stats s fs"
    using assms(1) by (simp add: tick_def)
  have r: "spec_rate a b 1000 = rat_of_int (a - b) / 1024" for a b
    by (simp add: spec_rate_def)
  show ?thesis
    unfolding t tick_from_second[OF assms(3,4,2)]
    by (simp add: assms(2) r accumulate_def rollover_fields hourly_get_def del: of_int_diff)
qed

theorem negative_delta_not_clamped_witness:
  "\<exists>s' fs'. tick \<lparr>pernic = Map.empty, total = \<lparr>bytes_recv = 0, bytes_sent = 0\<rparr>,
                   now_date = \<lparr>year = 2025, month = 3, day = 14\<rparr>, now_hour = 10\<rparr>
                 \<lparr>bytes_recv = 1024, bytes_sent = 2048\<rparr>
                 (setup_variables \<lparr>year = 2025, month = 3, day = 14\<rparr>)
                 \<lparr>files = Map.empty, locked = {}\<rparr> =
               Inr (\<lparr>bytes_recv = 0, bytes_sent = 0\<rparr>, s', fs') \<and>
     speed_queue s' = [(- 1, - 2)] \<and>
     daily_download_bytes s' = - 1024 \<and> daily_upload_bytes s' = - 2048 \<and>
     hourly_get (hourly_data s') 10 = \<lparr>download = - 1024, upload = - 2048\<rparr>"
proof -
  let ?env = "\<lparr>pernic = Map.empty, total = \<lparr>bytes_recv = 0, bytes_sent = 0\<rparr>,
                now_date = \<lparr>year = 2025, month = 3, day = 14\<rparr>, now_hour = 10\<rparr>"
  let ?s = "setup_variables \<lparr>year = 2025, month = 3, day = 14\<rparr>"
  let ?fs = "\<lparr>files = Map.empty, locked = {}\<rparr>"
  let ?new = "\<lparr>bytes_recv = 0, bytes_sent = 0\<rparr>"
  let ?old = "\<lparr>bytes_recv = 1024, bytes_sent = 2048\<rparr>"
  have a: "read_stats (selected_adapter ?s) ?env = Inr ?new"
    by (simp add: read_stats_def setup_variables_def)
  have i: "update_interval ?s = 1000"
    by (simp add: setup_variables_def)
  have b: "\<bar>bytes_recv ?new - bytes_recv ?old\<bar> < 2 ^ 53"
    and c: "\<bar>bytes_sent ?new - bytes_sent ?old\<bar> < 2 ^ 53"
    by simp_all
  from negative_delta_not_clamped[OF a i b c, of ?fs]
  obtain s' fs' where "tick ?env ?old ?s ?fs = Inr (?new, s', fs')"
    and "speed_queue s' = speed_queue ?s @
             [(spec_rate (bytes_recv ?new) (bytes_recv ?old) (update_interval ?s),
               spec_rate (bytes_sent ?new) (bytes_sent ?old) (update_interval ?s))]"
    and "daily_download_bytes s' =
             (if now_date ?env \<noteq> last_data_update_day ?s then 0 else daily_download_bytes ?s) +
             (bytes_recv ?new - bytes_recv ?old)"
    and "daily_upload_bytes s' =
             (if now_date ?env \<noteq> last_data_update_day ?s then 0 else daily_upload_bytes ?s) +
             (bytes_sent ?new - bytes_sent ?old)"
    and "hourly_get (hourly_data s') (now_hour ?env) =
             \<lparr>download =
                download (hourly_get (if now_date ?env \<noteq> last_data_update_day ?s then Map.empty
                                      else hourly_data ?s) (now_hour ?env)) +
                (bytes_recv ?new - bytes_recv ?old),
              upload =
                upload (hourly_get (if now_date ?env \<noteq> last_data_update_day ?s then Map.empty
                                    else hourly_data ?s) (now_hour ?env)) +
                (bytes_sent ?new - bytes_sent ?old)\<rparr>"
    by blast
  then have "tick ?env ?old ?s ?fs = Inr (?new, s', fs') \<and>
     speed_queue s' = [(- 1, - 2)] \<and>
     daily_download_bytes s' = - 1024 \<and> daily_upload_bytes s' = - 2048 \<and>
     hourly_get (hourly_data s') 10 = \<lparr>download = - 1024, upload = - 2048\<rparr>"
    by (simp add: setup_variables_def spec_rate_def hourly_get_def)
  then show ?thesis by blast
qed

text \<open>
  C3, at an interval other than one second. With 2048 bytes received and 1024 sent since
  the last tick and \<^verbatim>\<open>update_interval\<close> at 500 ms, the tick queues the sample (2, 1):
  the byte delta over 1024, not divided by the interval. The rate of the specification
  for the same counters is (4, 2) KB/s.
\<close>

theorem rate_not_divided_by_interval:
  "(case tick \<lparr>pernic = Map.empty, total = \<lparr>bytes_recv = 2048, bytes_sent = 1024\<rparr>,
                now_date = \<lparr>year = 2025, month = 3, day = 14\<rparr>, now_hour = 10\<rparr>
              \<lparr>bytes_recv = 0, bytes_sent = 0\<rparr>
              ((setup_variables \<lparr>year = 2025, month = 3, day = 14\<rparr>)\<lparr>update_interval := 500\<rparr>)
              \<lparr>files = Map.empty, locked = {}\<rparr> of
      Inl e \<Rightarrow> False
    | Inr (old_stats, s', fs') \<Rightarrow> speed_queue s' = [(2, 1)]) \<and>
   spec_rate 2048 0 500 = 4 \<and> spec_rate 1024 0 500 = 2"
proof -
  let ?env = "\<lparr>pernic = Map.empty, total = \<lparr>bytes_recv = 2048, bytes_sent = 1024\<rparr>,
                now_date = \<lparr>year = 2025, month = 3, day = 14\<rparr>, now_hour = 10\<rparr>"
  let ?s = "(setup_variables \<lparr>year = 2025, month = 3, day = 14\<rparr>)\<lparr>update_interval := 500\<rparr>"
  let ?fs = "\<lparr>files = Map.empty, locked = {}\<rparr>"
  let ?new = "\<lparr>bytes_recv = 2048, bytes_sent = 1024\<rparr>"
  let ?old = "\<lparr>bytes_recv = 0, bytes_sent = 0\<rparr>"
  have t: "tick ?env ?old ?s ?fs = tick_from ?new ?env ?old ?s ?fs"
    by (simp add: tick_def read_stats_def setup_variables_def)
  have "(case tick ?env ?old ?s ?fs of Inl e \<Rightarrow> False
         | Inr (old_stats, s', fs') \<Rightarrow> speed_queue s' = [(2, 1)])"
    unfolding t
    using tick_from_half_second[of ?new ?old ?s ?env ?fs]
    by (simp add: setup_variables_def rollover_def accumulate_def)
  then show ?thesis by (simp add: spec_rate_def)
qed

text \<open>
  C4, at an interval other than one second. Two ticks of one day at 500 ms, each with a
  counter delta of 2048 bytes: the deltas sum to 4096, the daily download total after the
  two ticks is 2048.
\<close>

theorem daily_total_halved_at_500ms:
  "(case measure_loop
           [\<lparr>pernic = Map.empty, total = \<lparr>bytes_recv = 2048, bytes_sent = 0\<rparr>,
             now_date = \<lparr>year = 2025, month = 3, day = 14\<rparr>, now_hour = 10\<rparr>,
            \<lparr>pernic = Map.empty, total = \<lparr>bytes_recv = 4096, bytes_sent = 0\<rparr>,
             now_date = \<lparr>year = 2025, month = 3, day = 14\<rparr>, now_hour = 10\<rparr>]
           \<lparr>bytes_recv = 0, bytes_sent = 0\<rparr>
           ((setup_variables \<lparr>year = 2025, month = 3, day = 14\<rparr>)\<lparr>update_interval := 500\<rparr>)
           \<lparr>files = Map.empty, locked = {}\<rparr> of
      Inl e \<Rightarrow> False
    | Inr (old_stats, s', fs') \<Rightarrow> daily_download_bytes s' = 2048) \<and>
   (2048 - 0) + (4096 - 2048) = (4096 :: int)"
proof -
  let ?d = "\<lparr>year = 2025, month = 3, day = 14\<rparr>"
  let ?e1 = "\<lparr>pernic = Map.empty, total = \<lparr>bytes_recv = 2048, bytes_sent = 0\<rparr>,
             now_date = ?d, now_hour = 10\<rparr>"
  let ?e2 = "\<lparr>pernic = Map.empty, total = \<lparr>bytes_recv = 4096, bytes_sent = 0\<rparr>,
             now_date = ?d, now_hour = 10\<rparr>"
  let ?s = "(setup_variables ?d)\<lparr>update_interval := 500\<rparr>"
  let ?fs = "\<lparr>files = Map.empty, locked = {}\<rparr>"
  let ?c0 = "\<lparr>bytes_recv = 0, bytes_sent = 0\<rparr>"
  let ?c1 = "\<lparr>bytes_recv = 2048, bytes_sent = 0\<rparr>"
  let ?c2 = "\<lparr>bytes_recv = 4096, bytes_sent = 0\<rparr>"
  have h: "py_trunc 1024 = 1024" "py_trunc 0 = 0"
    by (simp_all add: py_trunc_def)
  have t1: "tick ?e1 ?c0 s fs = tick_from ?c1 ?e1 ?c0 s fs" if "selected_adapter s = ''All''" for s fs
    using that by (simp add: tick_def read_stats_def)
  have t2: "tick ?e2 ?c1 s fs = tick_from ?c2 ?e2 ?c1 s fs" if "selected_adapter s = ''All''" for s fs
    using that by (simp add: tick_def read_stats_def)
  show ?thesis
    using tick_from_half_second[of ?c1 ?c0 ?s ?e1 ?fs]
    by (simp add: t1 t2 tick_from_half_second h setup_variables_def rollover_def accumulate_def)
qed

end
